theory Spec2Isabelle
  imports Main "HOL-Library.Sublist"
begin

section \<open>pixl-json-stream: line-delimited JSON framing over streams\<close>

text \<open>
  The source file \<^verbatim>\<open>json-stream.js\<close> holds two versions of the module. The model follows the
  later one (lines 95 - 226, with \<^verbatim>\<open>text\<close> events, \<^verbatim>\<open>EOL\<close> and \<^verbatim>\<open>maxLineLength\<close>), and the line
  numbers below are those of the file.

  A JavaScript string is a list of code units, here \<^typ>\<open>string\<close>, and \<^verbatim>\<open>length\<close> counts code
  units. \<^verbatim>\<open>JSON.parse\<close>, \<^verbatim>\<open>JSON.stringify\<close> and the \<^verbatim>\<open>write\<close> of the output stream belong to
  the runtime, so they are parameters of the functions that call them. \<^verbatim>\<open>emit\<close>, the calls on
  the performance tracker and the writes to the output stream are recorded, in program order,
  in a list of effects.

  The class is made with \<^verbatim>\<open>Class.create\<close> of pixl-class, which gives it the methods of Node's
  EventEmitter. \<^verbatim>\<open>emit\<close> hands an event to the listeners and returns, with one exception that
  is part of the model: an \<^verbatim>\<open>error\<close> event that nobody listens to makes \<^verbatim>\<open>emit\<close> throw. What a
  listener does is the application's and is not modelled.
\<close>

subsection \<open>Values of the runtime\<close>

text \<open>A JavaScript error object: its \<^verbatim>\<open>name\<close> and its \<^verbatim>\<open>message\<close>.\<close>

datatype js_error = JsError (err_name: string) (message: string)

text \<open>What \<^verbatim>\<open>JSON.parse\<close> can return. Numbers are kept to the integers.\<close>

datatype json =
    JNull
  | JBool bool
  | JNumber int
  | JString string
  | JArray "json list"
  | JObject "(string \<times> json) list"

text \<open>The truth value JavaScript gives a parsed value in \<^verbatim>\<open>if (json)\<close>.\<close>

fun truthy :: "json \<Rightarrow> bool" where
  "truthy JNull = False"
| "truthy (JBool b) = b"
| "truthy (JNumber n) = (n \<noteq> 0)"
| "truthy (JString s) = (s \<noteq> [])"
| "truthy (JArray xs) = True"
| "truthy (JObject kvs) = True"

text \<open>
  What \<^verbatim>\<open>JSON.stringify\<close> does with a value: it raises (a cyclic structure, a BigInt), it
  returns \<^verbatim>\<open>undefined\<close> (for \<^verbatim>\<open>undefined\<close>, a function, a symbol), or it returns the text.
\<close>

datatype stringified = Raised js_error | Undefined | Serialized string

text \<open>A callback is opaque to the module: \<open>None\<close> is an omitted argument.\<close>

type_synonym callback = "nat option"

subsection \<open>Events and effects\<close>

text \<open>The first argument of an \<^verbatim>\<open>error\<close> event is an error object or a plain string.\<close>

datatype err_payload = ErrObject js_error | ErrString string

text \<open>
  \<^verbatim>\<open>emit('json', json)\<close>, \<^verbatim>\<open>emit('text', text)\<close>, \<^verbatim>\<open>emit('error', e)\<close> or
  \<^verbatim>\<open>emit('error', e, record)\<close>, and \<^verbatim>\<open>emit('end')\<close>.
\<close>

datatype event =
    EvJson json
  | EvText string
  | EvError err_payload "string option"
  | EvEnd

datatype perf_call = PerfBegin string | PerfEnd string | PerfCount string nat

text \<open>
  \<open>Unhandled e\<close>: \<^verbatim>\<open>emit('error', e, ...)\<close> found no listener of \<^verbatim>\<open>error\<close> and throws (\<open>e\<close> itself
  when it is an Error object, an Error that wraps it otherwise). The exception leaves the
  handler that called \<^verbatim>\<open>emit\<close>, so it is the last effect of that call.
\<close>

datatype effect =
    Emit event
  | Perf perf_call
  | StreamWrite string callback
  | Unhandled err_payload

fun aborted :: "effect list \<Rightarrow> bool" where
  "aborted [] = False"
| "aborted (Unhandled e # es) = True"
| "aborted (_ # es) = aborted es"

text \<open>
  What a list of effects holds of each kind: the events handed to \<^verbatim>\<open>emit\<close>, in order, and
  the writes to the output stream.
\<close>

fun notifications :: "effect list \<Rightarrow> event list" where
  "notifications [] = []"
| "notifications (Emit ev # es) = ev # notifications es"
| "notifications (_ # es) = notifications es"

fun stream_writes :: "effect list \<Rightarrow> (string \<times> callback) list" where
  "stream_writes [] = []"
| "stream_writes (StreamWrite text cb # es) = (text, cb) # stream_writes es"
| "stream_writes (_ # es) = stream_writes es"

fun text_events :: "event list \<Rightarrow> string list" where
  "text_events [] = []"
| "text_events (EvText t # evs) = t # text_events evs"
| "text_events (_ # evs) = text_events evs"

subsection \<open>The class\<close>

text \<open>
  Streams are objects compared by identity (\<^verbatim>\<open>this.streamOut != this.streamIn\<close>): a stream is
  its address. \<open>perf\<close> tells whether a tracker is attached (\<^verbatim>\<open>setPerf\<close>). \<open>recordRegExp\<close> is the
  test \<^verbatim>\<open>record.match(self.recordRegExp)\<close>. \<open>maxLineLength\<close> is a count of code units.
  \<open>error_listener\<close> is the one thing kept of the emitter's table of listeners: whether the
  application has attached a listener of \<^verbatim>\<open>error\<close> to the object.
\<close>

record json_stream =
  streamIn :: nat
  streamOut :: nat
  buffer :: string
  perf :: bool
  recordRegExp :: "string \<Rightarrow> bool"
  preserveWhitespace :: bool
  maxLineLength :: nat
  EOL :: string
  error_listener :: bool

text \<open>
  The class \<^verbatim>\<open>\s\<close> of a regular expression, on the code units below 256: tab, line feed,
  vertical tab, form feed, carriage return, space and no-break space.
\<close>

definition is_space :: "char \<Rightarrow> bool" where
  "is_space c \<longleftrightarrow> c \<in> {CHR 0x09, CHR 0x0A, CHR 0x0B, CHR 0x0C, CHR 0x0D, CHR 0x20, CHR 0xA0}"

text \<open>\<^verbatim>\<open>record.match(/\S/)\<close>: some code unit is not white space.\<close>

definition has_non_space :: "string \<Rightarrow> bool" where
  "has_non_space record \<longleftrightarrow> (\<exists>c \<in> set record. \<not> is_space c)"

text \<open>The default \<^verbatim>\<open>recordRegExp: /^\s*\{/\<close>: white space, then an opening brace.\<close>

definition default_recordRegExp :: "string \<Rightarrow> bool" where
  "default_recordRegExp record =
     (case dropWhile is_space record of [] \<Rightarrow> False | c # _ \<Rightarrow> c = CHR ''{'')"

text \<open>
  \<^verbatim>\<open>__construct(stream_in, stream_out)\<close>: a missing \<^verbatim>\<open>stream_out\<close> is \<^verbatim>\<open>stream_in\<close>. The
  platform's \<^verbatim>\<open>os.EOL\<close> is a parameter.
\<close>

definition construct :: "string \<Rightarrow> nat \<Rightarrow> nat option \<Rightarrow> json_stream" where
  "construct os_EOL stream_in stream_out =
     \<lparr> streamIn = stream_in,
       streamOut = (case stream_out of None \<Rightarrow> stream_in | Some s \<Rightarrow> s),
       buffer = [],
       perf = False,
       recordRegExp = default_recordRegExp,
       preserveWhitespace = False,
       maxLineLength = 1024 * 1024,
       EOL = os_EOL,
       error_listener = False \<rparr>"

definition setPerf :: "json_stream \<Rightarrow> json_stream" where
  "setPerf self = self\<lparr>perf := True\<rparr>"

text \<open>\<^verbatim>\<open>stream.on('error', listener)\<close>, the emitter's method, called by the application.\<close>

definition on_error :: "json_stream \<Rightarrow> json_stream" where
  "on_error self = self\<lparr>error_listener := True\<rparr>"

text \<open>
  \<^verbatim>\<open>self.emit('error', e)\<close> and \<^verbatim>\<open>self.emit('error', e, record)\<close>: the call, and the exception
  when there is no listener.
\<close>

definition emit_error :: "json_stream \<Rightarrow> err_payload \<Rightarrow> string option \<Rightarrow> effect list" where
  "emit_error self e record =
     Emit (EvError e record) # (if error_listener self then [] else [Unhandled e])"

subsection \<open>\<^verbatim>\<open>String.prototype.split\<close> with a string separator\<close>

text \<open>
  \<open>split_scan sep s\<close> reads \<open>s\<close> from the left: where \<open>sep\<close> occurs, the piece read so far is
  closed and the scan goes on behind the occurrence; the rest of the string is the last
  piece. So the result is never empty, and the occurrences used do not overlap.
\<close>

function split_scan :: "string \<Rightarrow> string \<Rightarrow> string list" where
  "split_scan sep [] = [[]]"
| "split_scan sep (c # cs) =
     (if sep \<noteq> [] \<and> prefix sep (c # cs)
      then [] # split_scan sep (drop (length sep) (c # cs))
      else (case split_scan sep cs of
              [] \<Rightarrow> [[c]]
            | piece # pieces \<Rightarrow> (c # piece) # pieces))"
  by pat_completeness auto
termination
  by (relation "measure (\<lambda>(sep, s). length s)") (auto simp: neq_Nil_conv)

text \<open>
  \<^verbatim>\<open>s.split(sep)\<close>: with the empty separator the string falls into its code units (and the
  empty string into no piece at all).
\<close>

definition split_js :: "string \<Rightarrow> string \<Rightarrow> string list" where
  "split_js s sep = (if sep = [] then map (\<lambda>c. [c]) s else split_scan sep s)"

text \<open>
  \<^verbatim>\<open>pieces.join(sep)\<close>, to say below that a split loses nothing: joined again with the
  separator, the pieces are the string.
\<close>

fun join_js :: "string list \<Rightarrow> string \<Rightarrow> string" where
  "join_js [] sep = []"
| "join_js [piece] sep = piece"
| "join_js (piece # next_piece # pieces) sep = piece @ sep @ join_js (next_piece # pieces) sep"

subsection \<open>The \<^verbatim>\<open>data\<close> handler of \<^verbatim>\<open>init\<close>\<close>

text \<open>
  Lines 139 - 143. A non-empty buffer is put in front of the chunk, and only then is the
  result cut to its last \<open>maxLineLength\<close> code units. The cut is
  \<^verbatim>\<open>data.substring(data.length - self.maxLineLength)\<close>, taken when \<open>data\<close> is longer than the
  limit, so the index is positive.
\<close>

definition pending_data :: "json_stream \<Rightarrow> string \<Rightarrow> string" where
  "pending_data self chunk =
     (if buffer self \<noteq> [] then
        (let data = buffer self @ chunk
         in if length data > maxLineLength self
            then drop (length data - maxLineLength self) data
            else data)
      else chunk)"

text \<open>
  Line 149, \<^verbatim>\<open>data.substring(data.length - self.EOL.length) != self.EOL\<close>, negated.
  \<^verbatim>\<open>substring\<close> takes a negative index as 0, as the subtraction on \<^typ>\<open>nat\<close> does.
\<close>

definition ends_on_EOL :: "json_stream \<Rightarrow> string \<Rightarrow> bool" where
  "ends_on_EOL self data \<longleftrightarrow> drop (length data - length (EOL self)) data = EOL self"

text \<open>
  Lines 139 - 151: the object with its new buffer, and the array \<open>records\<close> that the loop
  goes through. \<^verbatim>\<open>records.pop()\<close> on an empty array gives \<^verbatim>\<open>undefined\<close>, which the next
  \<^verbatim>\<open>if (self.buffer)\<close> takes as the empty buffer (lemma \<open>pop_defined\<close>: this does not happen).
\<close>

definition frame :: "json_stream \<Rightarrow> string \<Rightarrow> json_stream \<times> string list" where
  "frame self chunk =
     (let data = pending_data self chunk;
          records = split_js data (EOL self)
      in if \<not> ends_on_EOL self data
         then (case records of
                 [] \<Rightarrow> (self\<lparr>buffer := []\<rparr>, [])
               | _ # _ \<Rightarrow> (self\<lparr>buffer := last records\<rparr>, butlast records))
         else (self\<lparr>buffer := []\<rparr>, records))"

text \<open>The tracker is called only when one is attached: \<^verbatim>\<open>if (self.perf) ...\<close>.\<close>

definition perf_calls :: "json_stream \<Rightarrow> perf_call list \<Rightarrow> effect list" where
  "perf_calls self calls = (if perf self then map Perf calls else [])"

text \<open>
  Lines 157 - 181, the body of the loop for \<open>record = records[idx]\<close>. \<open>parse\<close> is
  \<^verbatim>\<open>JSON.parse\<close>: \<open>Inl e\<close> when it throws \<open>e\<close>. When the parse throws, line 164 emits the
  \<^verbatim>\<open>error\<close> event inside the \<^verbatim>\<open>catch\<close>; if that call throws, nothing catches it and lines
  166 - 174 do not run; else the variable \<open>json\<close> is still \<^verbatim>\<open>null\<close> and line 172 emits nothing.
  When the parse returns, \<^verbatim>\<open>if (json)\<close> tests the truth value of what it returned.
  \<open>idx < len - 1\<close> is read in the integers in the source; \<open>len\<close> is at least 1 inside the
  loop.
\<close>

definition loop_body ::
  "(string \<Rightarrow> js_error + json) \<Rightarrow> json_stream \<Rightarrow> nat \<Rightarrow> nat \<Rightarrow> string \<Rightarrow> effect list" where
  "loop_body parse self idx len record =
     (if recordRegExp self record then
        perf_calls self [PerfBegin ''json_stream_parse''] @
        (case parse record of
           Inl e \<Rightarrow>
             (let caught =
                    emit_error self
                      (ErrObject (JsError ''Error'' (''JSON Parse Error: '' @ message e)))
                      (Some record)
              in caught @
                 (if aborted caught then []
                  else perf_calls self
                         [PerfEnd ''json_stream_parse'',
                          PerfCount ''json_stream_msgs_read'' 1,
                          PerfCount ''json_stream_bytes_read''
                            (length record + length (EOL self))]))
         | Inr json \<Rightarrow>
             perf_calls self
               [PerfEnd ''json_stream_parse'',
                PerfCount ''json_stream_msgs_read'' 1,
                PerfCount ''json_stream_bytes_read'' (length record + length (EOL self))] @
             (if truthy json then [Emit (EvJson json)] else []))
      else if preserveWhitespace self \<or> has_non_space record then
        (let text = record @ (if idx < len - 1 then EOL self else [])
         in if text \<noteq> [] then [Emit (EvText text)] else [])
      else [])"

text \<open>
  Lines 156 - 182: \<^verbatim>\<open>for (var idx = 0, len = records.length; idx < len; idx++)\<close>. A turn
  that ends by throwing ends the loop, and the handler.
\<close>

function for_loop ::
  "(string \<Rightarrow> js_error + json) \<Rightarrow> json_stream \<Rightarrow> string list \<Rightarrow> nat \<Rightarrow> nat \<Rightarrow> effect list" where
  "for_loop parse self records idx len =
     (if idx < len
      then (if aborted (loop_body parse self idx len (records ! idx))
            then loop_body parse self idx len (records ! idx)
            else loop_body parse self idx len (records ! idx) @
                 for_loop parse self records (idx + 1) len)
      else [])"
  by pat_completeness auto
termination
  by (relation "measure (\<lambda>(parse, self, records, idx, len). len - idx)") auto

declare for_loop.simps [simp del]

text \<open>
  The handler of \<^verbatim>\<open>data\<close> on the input stream. The buffer is stored before the loop starts, so
  it is the new one also when the loop ends by throwing.
\<close>

definition onData ::
  "(string \<Rightarrow> js_error + json) \<Rightarrow> json_stream \<Rightarrow> string \<Rightarrow> json_stream \<times> effect list" where
  "onData parse self chunk =
     (let (self', records) = frame self chunk
      in (self', for_loop parse self' records 0 (length records)))"

text \<open>
  The handler called for each chunk of the input, in order; the effects add up. An exception
  leaves the call that threw it: what the runtime does with it is outside the model, and
  \<open>onData_all\<close> gives the calls for all the chunks the stream delivers.
\<close>

fun onData_all ::
  "(string \<Rightarrow> js_error + json) \<Rightarrow> json_stream \<Rightarrow> string list \<Rightarrow> json_stream \<times> effect list" where
  "onData_all parse self [] = (self, [])"
| "onData_all parse self (chunk # chunks) =
     (let (self', effects) = onData parse self chunk;
          (self'', effects') = onData_all parse self' chunks
      in (self'', effects @ effects'))"

subsection \<open>Errors and the end of the streams\<close>

text \<open>
  Lines 186 - 201. \<^verbatim>\<open>init\<close> registers its handlers of \<^verbatim>\<open>error\<close> once, by the identity of the
  two streams. \<open>stream_error self s err\<close> is what they emit when the stream \<open>s\<close> raises
  \<open>err\<close>: every handler registered on \<open>s\<close> runs, in the order of registration.
\<close>

definition stream_error :: "json_stream \<Rightarrow> nat \<Rightarrow> js_error \<Rightarrow> effect list" where
  "stream_error self s err =
     (if streamOut self \<noteq> streamIn self then
        (if s = streamIn self
         then emit_error self (ErrString (''Error in input stream: '' @ message err)) None
         else []) @
        (if s = streamOut self
         then emit_error self (ErrString (''Error in output stream: '' @ message err)) None
         else [])
      else
        (if s = streamIn self then emit_error self (ErrObject err) None else []))"

text \<open>Lines 204 - 206: the end of the input stream.\<close>

definition stream_end :: "json_stream \<Rightarrow> nat \<Rightarrow> effect list" where
  "stream_end self s = (if s = streamIn self then [Emit EvEnd] else [])"

subsection \<open>\<^verbatim>\<open>write\<close>\<close>

text \<open>
  Lines 209 - 224, the method \<^verbatim>\<open>write\<close>. \<open>stringify\<close> is \<^verbatim>\<open>JSON.stringify\<close> and \<open>stream_write\<close> the answer of
  \<^verbatim>\<open>this.streamOut.write\<close>. The result is \<open>Inl e\<close> when \<open>write\<close> throws \<open>e\<close>, and else the value
  returned. When \<^verbatim>\<open>JSON.stringify\<close> returns \<^verbatim>\<open>undefined\<close>, \<^verbatim>\<open>data.length\<close> throws a TypeError
  if a tracker is attached, and else \<^verbatim>\<open>data + this.EOL\<close> is the text \<^verbatim>\<open>undefined\<close> and the
  delimiter.
\<close>

definition write_json ::
  "('a \<Rightarrow> stringified) \<Rightarrow> (string \<Rightarrow> callback \<Rightarrow> bool) \<Rightarrow> json_stream \<Rightarrow> 'a \<Rightarrow> callback
     \<Rightarrow> (js_error + bool) \<times> effect list" where
  "write_json stringify stream_write self json callback =
     (case stringify json of
        Raised e \<Rightarrow> (Inl e, perf_calls self [PerfBegin ''json_stream_compose''])
      | Undefined \<Rightarrow>
          if perf self then
            (Inl (JsError ''TypeError'' ''Cannot read properties of undefined''),
             [Perf (PerfBegin ''json_stream_compose''),
              Perf (PerfEnd ''json_stream_compose''),
              Perf (PerfCount ''json_stream_msgs_written'' 1)])
          else
            (let result = stream_write (''undefined'' @ EOL self) callback
             in (Inr result, [StreamWrite (''undefined'' @ EOL self) callback]))
      | Serialized data \<Rightarrow>
          (let result = stream_write (data @ EOL self) callback
           in (Inr result,
               perf_calls self
                 [PerfBegin ''json_stream_compose'',
                  PerfEnd ''json_stream_compose'',
                  PerfCount ''json_stream_msgs_written'' 1,
                  PerfCount ''json_stream_bytes_written'' (length data + length (EOL self))] @
               [StreamWrite (data @ EOL self) callback] @
               (if \<not> result \<and> perf self
                then [Perf (PerfCount ''json_stream_write_buffer'' 1)]
                else []))))"

subsection \<open>What the statements below observe\<close>

text \<open>
  The arrays \<open>records\<close> that the loop goes through, chunk after chunk, put end to end.
\<close>

fun candidate_records :: "json_stream \<Rightarrow> string list \<Rightarrow> string list" where
  "candidate_records self [] = []"
| "candidate_records self (chunk # chunks) =
     (let (self', records) = frame self chunk
      in records @ candidate_records self' chunks)"

text \<open>
  When \<open>data\<close> ends on the delimiter, line 150 does not run and the last element of the split
  stays in \<open>records\<close>. \<open>delimited_records\<close> are the elements of \<open>records\<close> before that one, over
  all chunks, and \<open>tail_elements\<close> are those last elements.
\<close>

fun delimited_records :: "json_stream \<Rightarrow> string list \<Rightarrow> string list" where
  "delimited_records self [] = []"
| "delimited_records self (chunk # chunks) =
     (let (self', records) = frame self chunk
      in (if ends_on_EOL self (pending_data self chunk) then butlast records else records) @
         delimited_records self' chunks)"

fun tail_elements :: "json_stream \<Rightarrow> string list \<Rightarrow> string list" where
  "tail_elements self [] = []"
| "tail_elements self (chunk # chunks) =
     (let (self', records) = frame self chunk
      in (if ends_on_EOL self (pending_data self chunk) then [last records] else []) @
         tail_elements self' chunks)"

text \<open>
  No chunk of the sequence, with the buffer in front of it, is longer than \<open>maxLineLength\<close>:
  line 141 never cuts.
\<close>

fun within_limit :: "json_stream \<Rightarrow> string list \<Rightarrow> bool" where
  "within_limit self [] = True"
| "within_limit self (chunk # chunks) =
     (length (buffer self @ chunk) \<le> maxLineLength self \<and>
      within_limit (fst (frame self chunk)) chunks)"

text \<open>
  A delimiter that cannot overlap itself: it is not empty, and no proper non-empty start of it
  is also its end. \<^verbatim>\<open>"\n"\<close> and \<^verbatim>\<open>"\r\n"\<close> are such; \<^verbatim>\<open>"--"\<close> and \<^verbatim>\<open>"\n\n"\<close> are not.
\<close>

definition no_self_overlap :: "string \<Rightarrow> bool" where
  "no_self_overlap sep \<longleftrightarrow>
     sep \<noteq> [] \<and> (\<forall>k \<in> {1..<length sep}. take k sep \<noteq> drop (length sep - k) sep)"

subsection \<open>A runtime for the examples\<close>

text \<open>
  The values of \<^verbatim>\<open>JSON.parse\<close> on the texts that the examples use; every other text that
  the examples hand to it is malformed.
\<close>

definition parse_sample :: "string \<Rightarrow> js_error + json" where
  "parse_sample text =
     (if text = ''{\"a\":1}'' then Inr (JObject [(''a'', JNumber 1)])
      else if text = ''{\"code\":0}'' then Inr (JObject [(''code'', JNumber 0)])
      else if text = ''null'' then Inr JNull
      else Inl (JsError ''SyntaxError'' ''Unexpected token''))"

text \<open>
  Arguments of \<^verbatim>\<open>write\<close>: a JSON value, an object that refers to itself, or \<^verbatim>\<open>undefined\<close>;
  and the values of \<^verbatim>\<open>JSON.stringify\<close> on those that the examples use.
\<close>

datatype js_value = JsonValue json | CyclicObject | JsUndefined

definition stringify_sample :: "js_value \<Rightarrow> stringified" where
  "stringify_sample v =
     (case v of
        CyclicObject \<Rightarrow> Raised (JsError ''TypeError'' ''Converting circular structure to JSON'')
      | JsUndefined \<Rightarrow> Undefined
      | JsonValue j \<Rightarrow>
          (if j = JObject [(''code'', JNumber 0)] then Serialized ''{\"code\":0}''
           else if j = JObject [(''a'', JNumber 1), (''b'', JNumber 2)]
           then Serialized ''{\"a\":1,\"b\":2}''
           else if j = JArray [JNumber 1, JNumber 2] then Serialized ''[1,2]''
           else Serialized ''null''))"

text \<open>A sink that takes every write at once.\<close>

definition accept_all :: "string \<Rightarrow> callback \<Rightarrow> bool" where
  "accept_all text cb = True"

definition crlf :: string where
  "crlf = [CHR 0x0D, CHR 0x0A]"

section \<open>Properties of the split\<close>

lemma split_scan_ne [simp]: "split_scan sep s \<noteq> []"
  by (induction sep s rule: split_scan.induct) (auto split: list.splits)

lemma split_scan_short: "length s < length sep \<Longrightarrow> split_scan sep s = [s]"
proof (induction s)
  case Nil
  then show ?case by simp
next
  case (Cons c cs)
  then have "\<not> prefix sep (c # cs)"
    by (auto dest: prefix_length_le)
  with Cons show ?case by simp
qed

lemma join_split_scan: "join_js (split_scan sep s) sep = s"
proof (induction sep s rule: split_scan.induct)
  case (1 sep)
  then show ?case by simp
next
  case (2 sep c cs)
  show ?case
  proof (cases "sep \<noteq> [] \<and> prefix sep (c # cs)")
    case True
    obtain y ys where y: "split_scan sep (drop (length sep) (c # cs)) = y # ys"
      by (cases "split_scan sep (drop (length sep) (c # cs))") auto
    from True have "c # cs = sep @ drop (length sep) (c # cs)"
      by (metis append_eq_conv_conj prefix_def)
    with 2(1)[OF True] y True show ?thesis by (simp del: drop_Suc_Cons)
  next
    case False
    obtain y ys where y: "split_scan sep cs = y # ys"
      by (cases "split_scan sep cs") auto
    from False y have "split_scan sep (c # cs) = (c # y) # ys" by auto
    moreover have "join_js ((c # y) # ys) sep = c # join_js (y # ys) sep"
      by (cases ys) simp_all
    ultimately show ?thesis using 2(2)[OF False] y by (simp del: split_scan.simps)
  qed
qed

text \<open>Joined with the separator, the pieces of a split are the string again.\<close>

lemma join_split_js: "join_js (split_js s sep) sep = s"
proof (cases "sep = []")
  case True
  have "join_js (map (\<lambda>c. [c]) s) [] = s"
    by (induction s rule: induct_list012) simp_all
  with True show ?thesis by (simp add: split_js_def)
next
  case False
  then show ?thesis by (simp add: split_js_def join_split_scan)
qed

text \<open>A split into one piece has found no delimiter: the piece is the string.\<close>

lemma split_scan_single: "split_scan sep s = [y] \<Longrightarrow> y = s"
proof (induction sep s arbitrary: y rule: split_scan.induct)
  case (1 sep)
  then show ?case by simp
next
  case (2 sep c cs)
  show ?case
  proof (cases "sep \<noteq> [] \<and> prefix sep (c # cs)")
    case True
    with 2(3) show ?thesis by simp
  next
    case False
    obtain p ps where p: "split_scan sep cs = p # ps"
      by (cases "split_scan sep cs") auto
    with False 2(3) have "ps = []" "y = c # p" by auto
    with p 2(2)[OF False, of p] show ?thesis by simp
  qed
qed

text \<open>
  Splitting \<open>a @ b\<close>: the pieces closed inside \<open>a\<close>, then the split of what \<open>a\<close> leaves open
  followed by \<open>b\<close>. This holds for every non-empty delimiter.
\<close>

lemma split_scan_append:
  "sep \<noteq> [] \<Longrightarrow>
   split_scan sep (a @ b) =
     butlast (split_scan sep a) @ split_scan sep (last (split_scan sep a) @ b)"
proof (induction sep a rule: split_scan.induct)
  case (1 sep)
  then show ?case by simp
next
  case (2 sep c cs)
  show ?case
  proof (cases "prefix sep (c # cs)")
    case True
    then have p: "prefix sep ((c # cs) @ b)" by (metis prefix_prefix)
    from True have le: "length sep \<le> length (c # cs)" by (rule prefix_length_le)
    have "drop (length sep) ((c # cs) @ b) =
            drop (length sep) (c # cs) @ drop (length sep - length (c # cs)) b"
      by (rule drop_append)
    with le have d: "drop (length sep) ((c # cs) @ b) = drop (length sep) (c # cs) @ b"
      by (simp del: drop_Suc_Cons)
    from 2(1)[OF conjI[OF 2(3) True] 2(3)] True p d 2(3) show ?thesis
      by (simp del: drop_Suc_Cons)
  next
    case False
    show ?thesis
    proof (cases "prefix sep (c # cs @ b)")
      case True
      with False have "length (c # cs) < length sep"
        by (metis append_Cons leI prefix_length_prefix prefixI)
      then have "split_scan sep (c # cs) = [c # cs]" by (rule split_scan_short)
      then show ?thesis by simp
    next
      case straddle: False
      obtain y ys where y: "split_scan sep cs = y # ys"
        by (cases "split_scan sep cs") auto
      from 2(2)[OF _ 2(3)] False
      have IH: "split_scan sep (cs @ b) =
                  butlast (split_scan sep cs) @ split_scan sep (last (split_scan sep cs) @ b)"
        by simp
      show ?thesis
      proof (cases ys)
        case Nil
        with y have "y = cs" by (simp add: split_scan_single)
        with Nil y False straddle IH show ?thesis by simp
      next
        case (Cons z zs)
        with y False straddle IH show ?thesis by simp
      qed
    qed
  qed
qed

text \<open>The last piece holds no delimiter that a new scan would find.\<close>

lemma split_scan_last_idem:
  "split_scan sep (last (split_scan sep s)) = [last (split_scan sep s)]"
proof (induction sep s rule: split_scan.induct)
  case (1 sep)
  then show ?case by simp
next
  case (2 sep c cs)
  show ?case
  proof (cases "sep \<noteq> [] \<and> prefix sep (c # cs)")
    case True
    with 2(1) show ?thesis by (simp del: drop_Suc_Cons)
  next
    case False
    obtain y ys where y: "split_scan sep cs = y # ys"
      by (cases "split_scan sep cs") auto
    show ?thesis
    proof (cases ys)
      case Nil
      with y have "y = cs" by (simp add: split_scan_single)
      with Nil y False have "split_scan sep (c # cs) = [c # cs]" by auto
      then show ?thesis by (simp del: split_scan.simps)
    next
      case (Cons z zs)
      from y False have "split_scan sep (c # cs) = (c # y) # ys" by auto
      with Cons y 2(2)[OF False] show ?thesis by (simp del: split_scan.simps)
    qed
  qed
qed

lemma split_scan_piece_length:
  "x \<in> set (split_scan sep s) \<Longrightarrow> length x \<le> length s"
proof (induction sep s arbitrary: x rule: split_scan.induct)
  case (1 sep)
  then show ?case by simp
next
  case (2 sep c cs)
  show ?case
  proof (cases "sep \<noteq> [] \<and> prefix sep (c # cs)")
    case True
    with 2(3) have "x = [] \<or> x \<in> set (split_scan sep (drop (length sep) (c # cs)))"
      by (simp del: drop_Suc_Cons)
    then show ?thesis
    proof
      assume "x \<in> set (split_scan sep (drop (length sep) (c # cs)))"
      from 2(1)[OF True this] show ?thesis by simp
    qed simp
  next
    case False
    obtain y ys where y: "split_scan sep cs = y # ys"
      by (cases "split_scan sep cs") auto
    with False 2(3) have "x = c # y \<or> x \<in> set ys" by auto
    then show ?thesis
    proof
      assume "x = c # y"
      moreover have "length y \<le> length cs" using 2(2)[OF False, of y] y by simp
      ultimately show ?thesis by simp
    next
      assume "x \<in> set ys"
      with 2(2)[OF False, of x] y show ?thesis by simp
    qed
  qed
qed

text \<open>A text with no delimiter starting inside it, followed by the delimiter.\<close>

lemma split_scan_terminated:
  "sep \<noteq> [] \<Longrightarrow> \<forall>i<length s. \<not> prefix sep (drop i (s @ sep)) \<Longrightarrow>
   split_scan sep (s @ sep) = [s, []]"
proof (induction s)
  case Nil
  then show ?case by (cases sep) simp_all
next
  case (Cons c cs)
  from Cons.prems(2) have "\<not> prefix sep (drop 0 ((c # cs) @ sep))" by blast
  then have np: "\<not> prefix sep (c # cs @ sep)" by simp
  have "\<forall>i<length cs. \<not> prefix sep (drop i (cs @ sep))"
  proof (intro allI impI)
    fix i assume "i < length cs"
    then have "Suc i < length (c # cs)" by simp
    with Cons.prems(2) have "\<not> prefix sep (drop (Suc i) ((c # cs) @ sep))" by blast
    then show "\<not> prefix sep (drop i (cs @ sep))" by simp
  qed
  with Cons.IH Cons.prems(1) have "split_scan sep (cs @ sep) = [cs, []]" by simp
  with np show ?case by simp
qed

text \<open>
  Two occurrences of the delimiter that overlap show a start of it that is also its end.
\<close>

lemma overlap_border:
  assumes "sep @ r = u @ sep" "r \<noteq> []" "length r < length sep"
  shows "\<not> no_self_overlap sep"
proof -
  let ?k = "length sep - length r"
  from assms have lu: "length u = length r"
    by (metis add_left_cancel length_append add.commute)
  from assms(3) assms(2) have k: "?k \<in> {1..<length sep}" by (cases r) auto
  have "take ?k sep = take ?k (drop (length u) (u @ sep))" by simp
  also have "\<dots> = take ?k (drop (length r) (sep @ r))" using assms(1) lu by simp
  also have "\<dots> = take ?k (drop (length r) sep @ r)" using assms(3) by simp
  also have "\<dots> = drop (length r) sep" using assms(3) by simp
  also have "\<dots> = drop (length sep - ?k) sep" using assms(3) by simp
  finally have "take ?k sep = drop (length sep - ?k) sep" .
  with k show ?thesis unfolding no_self_overlap_def by blast
qed

text \<open>
  With a delimiter that cannot overlap itself, a string that ends on the delimiter is split
  with an empty last piece: the test of line 149 and the split agree.
\<close>

lemma split_scan_last_suffix:
  "no_self_overlap sep \<Longrightarrow> suffix sep s \<Longrightarrow> last (split_scan sep s) = []"
proof (induction sep s rule: split_scan.induct)
  case (1 sep)
  then show ?case by simp
next
  case (2 sep c cs)
  from 2(3) have ne: "sep \<noteq> []" by (simp add: no_self_overlap_def)
  show ?case
  proof (cases "prefix sep (c # cs)")
    case True
    let ?r = "drop (length sep) (c # cs)"
    from True have eq: "c # cs = sep @ ?r"
      by (metis append_eq_conv_conj prefix_def)
    from 2(4) obtain u where u: "c # cs = u @ sep" by (auto simp: suffix_def)
    have "?r = [] \<or> suffix sep ?r"
    proof (cases "?r = []")
      case False
      have "\<not> length ?r < length sep"
      proof
        assume "length ?r < length sep"
        with overlap_border[of sep ?r u] False eq u 2(3) show False by metis
      qed
      then have "length sep \<le> length ?r" by simp
      moreover have "suffix sep (sep @ ?r)" using eq 2(4) by metis
      moreover have "suffix ?r (sep @ ?r)" by (rule suffix_appendI) simp
      ultimately have "suffix sep ?r"
        by (metis suffix_length_suffix)
      then show ?thesis by simp
    qed simp
    then show ?thesis
    proof
      assume "?r = []"
      with True ne show ?thesis by (simp del: drop_Suc_Cons)
    next
      assume s: "suffix sep ?r"
      from 2(1)[OF conjI[OF ne True] 2(3) s] True ne show ?thesis
        by (simp del: drop_Suc_Cons)
    qed
  next
    case False
    with 2(4) have s: "suffix sep cs"
      by (metis suffix_Cons prefix_order.order_refl)
    from False have c: "\<not> (sep \<noteq> [] \<and> prefix sep (c # cs))" by simp
    obtain y ys where y: "split_scan sep cs = y # ys"
      by (cases "split_scan sep cs") auto
    from 2(2)[OF c 2(3) s] have l: "last (split_scan sep cs) = []" .
    have "ys \<noteq> []"
    proof
      assume "ys = []"
      with y l have "split_scan sep cs = [[]]" by simp
      then have "cs = []" by (metis split_scan_single)
      with s ne show False by simp
    qed
    with y l False show ?thesis by simp
  qed
qed

section \<open>Properties of the handler\<close>

lemma notifications_append [simp]:
  "notifications (xs @ ys) = notifications xs @ notifications ys"
  by (induction xs rule: notifications.induct) simp_all

lemma stream_writes_append [simp]:
  "stream_writes (xs @ ys) = stream_writes xs @ stream_writes ys"
  by (induction xs rule: stream_writes.induct) simp_all

lemma notifications_Perf [simp]: "notifications (map Perf calls) = []"
  by (induction calls) simp_all

lemma stream_writes_Perf [simp]: "stream_writes (map Perf calls) = []"
  by (induction calls) simp_all

lemma notifications_perf_calls [simp]: "notifications (perf_calls self calls) = []"
  by (simp add: perf_calls_def)

lemma stream_writes_perf_calls [simp]: "stream_writes (perf_calls self calls) = []"
  by (simp add: perf_calls_def)

lemma notifications_concat:
  "notifications (concat xss) = concat (map notifications xss)"
  by (induction xss) simp_all

lemma aborted_append [simp]: "aborted (xs @ ys) \<longleftrightarrow> aborted xs \<or> aborted ys"
  by (induction xs rule: aborted.induct) simp_all

lemma aborted_Perf [simp]: "\<not> aborted (map Perf calls)"
  by (induction calls) simp_all

lemma aborted_perf_calls [simp]: "\<not> aborted (perf_calls self calls)"
  by (simp add: perf_calls_def)

text \<open>A turn of the loop throws when the record fails to decode and nobody listens.\<close>

lemma loop_body_aborted:
  "aborted (loop_body parse self idx len record) \<longleftrightarrow>
     recordRegExp self record \<and> (\<exists>e. parse record = Inl e) \<and> \<not> error_listener self"
  by (auto simp: loop_body_def emit_error_def Let_def split: sum.splits)

lemma for_loop_step:
  "idx < len \<Longrightarrow>
   for_loop parse self records idx len =
     (if aborted (loop_body parse self idx len (records ! idx))
      then loop_body parse self idx len (records ! idx)
      else loop_body parse self idx len (records ! idx) @
           for_loop parse self records (Suc idx) len)"
  by (subst for_loop.simps) simp

lemma for_loop_done: "\<not> idx < len \<Longrightarrow> for_loop parse self records idx len = []"
  by (subst for_loop.simps) simp

text \<open>
  As long as no turn throws, the loop runs the body on every index in order: up to a turn
  \<open>i\<close> that the loop reaches, its effects are those of the turns before \<open>i\<close> and then those
  of the loop from \<open>i\<close> on.
\<close>

lemma for_loop_reach:
  assumes "\<forall>j. idx \<le> j \<and> j < i \<longrightarrow> \<not> aborted (loop_body parse self j len (records ! j))"
    and "idx \<le> i" and "i \<le> len"
  shows "for_loop parse self records idx len =
           concat (map (\<lambda>j. loop_body parse self j len (records ! j)) [idx..<i]) @
           for_loop parse self records i len"
  using assms
proof (induction "i - idx" arbitrary: idx)
  case 0
  then show ?case by simp
next
  case (Suc n)
  then have lt: "idx < i" and lt': "idx < len" by simp_all
  from Suc.prems(1) lt have na: "\<not> aborted (loop_body parse self idx len (records ! idx))"
    by simp
  have "for_loop parse self records (Suc idx) len =
          concat (map (\<lambda>j. loop_body parse self j len (records ! j)) [Suc idx..<i]) @
          for_loop parse self records i len"
  proof (rule Suc.hyps(1))
    show "n = i - Suc idx" using Suc.hyps(2) by simp
    show "\<forall>j. Suc idx \<le> j \<and> j < i \<longrightarrow>
            \<not> aborted (loop_body parse self j len (records ! j))"
      using Suc.prems(1) by simp
    show "Suc idx \<le> i" using lt by simp
    show "i \<le> len" by (rule Suc.prems(3))
  qed
  with na lt lt' show ?case
    by (simp add: for_loop_step upt_conv_Cons)
qed

lemma for_loop_concat:
  assumes "\<forall>j. idx \<le> j \<and> j < len \<longrightarrow> \<not> aborted (loop_body parse self j len (records ! j))"
  shows "for_loop parse self records idx len =
           concat (map (\<lambda>j. loop_body parse self j len (records ! j)) [idx..<len])"
proof (cases "idx \<le> len")
  case True
  from for_loop_reach[OF assms True order_refl] show ?thesis
    by (simp add: for_loop_done)
next
  case False
  then show ?thesis by (simp add: for_loop_done)
qed

lemma upt_split_at: "i < n \<Longrightarrow> [0..<n] = [0..<i] @ [i] @ [Suc i..<n]"
proof -
  assume lt: "i < n"
  have "[0..<i + (n - i)] = [0..<i] @ [i..<i + (n - i)]"
    by (rule upt_add_eq_append) simp
  with lt have "[0..<n] = [0..<i] @ [i..<n]" by simp
  with lt show ?thesis by (simp add: upt_conv_Cons)
qed

text \<open>\<^verbatim>\<open>records.pop()\<close> of line 150 always finds an element.\<close>

lemma pop_defined: "\<not> ends_on_EOL self data \<Longrightarrow> split_js data (EOL self) \<noteq> []"
  by (auto simp: split_js_def ends_on_EOL_def)

lemma ends_on_EOL_suffix: "ends_on_EOL self data \<longleftrightarrow> suffix (EOL self) data"
proof
  assume "ends_on_EOL self data"
  then show "suffix (EOL self) data"
    unfolding ends_on_EOL_def by (metis suffix_drop)
next
  assume "suffix (EOL self) data"
  then obtain u where "data = u @ EOL self" by (auto simp: suffix_def)
  then show "ends_on_EOL self data" by (simp add: ends_on_EOL_def)
qed

text \<open>The handler changes the buffer and nothing else of the object.\<close>

lemma frame_config:
  "frame self chunk = (self', records) \<Longrightarrow> self' = self\<lparr>buffer := buffer self'\<rparr>"
  by (auto simp: frame_def Let_def split: if_splits list.splits)

lemma loop_body_buffer:
  "loop_body parse (self\<lparr>buffer := b\<rparr>) idx len record = loop_body parse self idx len record"
  by (simp add: loop_body_def perf_calls_def emit_error_def Let_def split: sum.splits)

lemma for_loop_buffer:
  "for_loop parse (self\<lparr>buffer := b\<rparr>) records idx len = for_loop parse self records idx len"
proof (induction parse self records idx len rule: for_loop.induct)
  case (1 parse self records idx len)
  show ?case
  proof (cases "idx < len")
    case True
    with 1 show ?thesis by (simp add: for_loop_step loop_body_buffer)
  next
    case False
    then show ?thesis by (simp add: for_loop_done)
  qed
qed

lemma onData_fst: "fst (onData parse self chunk) = fst (frame self chunk)"
  by (simp add: onData_def split: prod.splits)

lemma onData_effects:
  assumes "frame self chunk = (self', records)"
  shows "snd (onData parse self chunk) = for_loop parse self records 0 (length records)"
proof -
  from assms have "self' = self\<lparr>buffer := buffer self'\<rparr>" by (rule frame_config)
  then have "for_loop parse self' records 0 (length records) =
               for_loop parse self records 0 (length records)"
    by (metis for_loop_buffer)
  with assms show ?thesis by (simp add: onData_def)
qed

lemma loop_body_parse_error:
  "recordRegExp self record \<Longrightarrow> parse record = Inl e \<Longrightarrow>
   notifications (loop_body parse self idx len record) =
     [EvError (ErrObject (JsError ''Error'' (''JSON Parse Error: '' @ message e))) (Some record)]"
  by (simp add: loop_body_def emit_error_def Let_def)

lemma loop_body_parsed:
  "recordRegExp self record \<Longrightarrow> parse record = Inr v \<Longrightarrow>
   notifications (loop_body parse self idx len record) = (if truthy v then [EvJson v] else [])"
  by (simp add: loop_body_def)

lemma loop_body_text_nonempty:
  "EvText t \<in> set (notifications (loop_body parse self idx len record)) \<Longrightarrow> t \<noteq> []"
  by (auto simp: loop_body_def emit_error_def Let_def split: if_splits sum.splits)

lemma for_loop_text_nonempty:
  "EvText t \<in> set (notifications (for_loop parse self records idx len)) \<Longrightarrow> t \<noteq> []"
proof (induction parse self records idx len rule: for_loop.induct)
  case (1 parse self records idx len)
  show ?case
  proof (cases "idx < len")
    case True
    with 1(2) have "EvText t \<in> set (notifications (loop_body parse self idx len (records ! idx)))
        \<or> (\<not> aborted (loop_body parse self idx len (records ! idx))
            \<and> EvText t \<in> set (notifications (for_loop parse self records (idx + 1) len)))"
      by (auto simp: for_loop_step split: if_splits)
    then show ?thesis
    proof
      assume "EvText t \<in> set (notifications (loop_body parse self idx len (records ! idx)))"
      then show ?thesis by (rule loop_body_text_nonempty)
    next
      assume "\<not> aborted (loop_body parse self idx len (records ! idx))
            \<and> EvText t \<in> set (notifications (for_loop parse self records (idx + 1) len))"
      with 1(1)[OF True] show ?thesis by simp
    qed
  next
    case False
    with 1(2) show ?thesis by (simp add: for_loop_done)
  qed
qed

lemma pending_data_within:
  "length (buffer self @ chunk) \<le> maxLineLength self \<Longrightarrow>
   pending_data self chunk = buffer self @ chunk"
  by (simp add: pending_data_def)

text \<open>
  With a delimiter that cannot overlap itself, the new buffer is the last piece of the split
  whether line 150 runs or not.
\<close>

lemma frame_no_overlap:
  assumes "no_self_overlap (EOL self)"
  shows "frame self chunk =
           (self\<lparr>buffer := last (split_scan (EOL self) (pending_data self chunk))\<rparr>,
            if ends_on_EOL self (pending_data self chunk)
            then split_scan (EOL self) (pending_data self chunk)
            else butlast (split_scan (EOL self) (pending_data self chunk)))"
proof -
  from assms have ne: "EOL self \<noteq> []" by (simp add: no_self_overlap_def)
  show ?thesis
  proof (cases "ends_on_EOL self (pending_data self chunk)")
    case True
    then have "last (split_scan (EOL self) (pending_data self chunk)) = []"
      using assms by (simp add: ends_on_EOL_suffix split_scan_last_suffix)
    with True ne show ?thesis by (simp add: frame_def split_js_def Let_def)
  next
    case False
    with ne show ?thesis
      by (simp add: frame_def split_js_def Let_def split: list.splits)
  qed
qed

lemma frame_buffer_length:
  "length (buffer (fst (frame self chunk))) \<le> length (pending_data self chunk)"
proof (cases "EOL self = []")
  case True
  then have "ends_on_EOL self (pending_data self chunk)" by (simp add: ends_on_EOL_def)
  then show ?thesis by (simp add: frame_def Let_def)
next
  case False
  let ?S = "split_scan (EOL self) (pending_data self chunk)"
  have "last ?S \<in> set ?S"
    by (rule last_in_set) simp
  then have le: "length (last ?S) \<le> length (pending_data self chunk)"
    by (rule split_scan_piece_length)
  obtain x xs where S: "?S = x # xs" by (cases ?S) auto
  show ?thesis
  proof (cases "ends_on_EOL self (pending_data self chunk)")
    case True
    then show ?thesis by (simp add: frame_def Let_def)
  next
    case ends: False
    with False S have "buffer (fst (frame self chunk)) = last ?S"
      by (simp add: frame_def Let_def split_js_def)
    with le show ?thesis by simp
  qed
qed

text \<open>
  The induction behind the invariance under chunking: the buffer is always the open last
  piece of everything read so far.
\<close>

lemma chunking_aux:
  assumes "no_self_overlap (EOL self)" "within_limit self chunks"
    "split_scan (EOL self) (buffer self) = [buffer self]"
  shows "delimited_records self chunks =
           butlast (split_scan (EOL self) (buffer self @ concat chunks))
       \<and> buffer (fst (onData_all parse self chunks)) =
           last (split_scan (EOL self) (buffer self @ concat chunks))
       \<and> set (tail_elements self chunks) \<subseteq> {[]}"
  using assms
proof (induction chunks arbitrary: self)
  case Nil
  then show ?case by simp
next
  case (Cons chunk chunks)
  let ?sep = "EOL self"
  let ?S = "split_scan ?sep (buffer self @ chunk)"
  let ?self' = "fst (frame self chunk)"
  from Cons.prems have ne: "?sep \<noteq> []" by (simp add: no_self_overlap_def)
  from Cons.prems have pd: "pending_data self chunk = buffer self @ chunk"
    by (simp add: pending_data_within)
  have fr: "frame self chunk =
              (self\<lparr>buffer := last ?S\<rparr>,
               if ends_on_EOL self (buffer self @ chunk) then ?S else butlast ?S)"
    using frame_no_overlap[OF Cons.prems(1), of chunk] pd by simp
  then have b': "buffer ?self' = last ?S" and e': "EOL ?self' = ?sep" by simp_all
  from Cons.prems e' have p1: "no_self_overlap (EOL ?self')" by simp
  from Cons.prems have p2: "within_limit ?self' chunks" by simp
  have p3: "split_scan (EOL ?self') (buffer ?self') = [buffer ?self']"
    unfolding b' e' by (rule split_scan_last_idem)
  note IH = Cons.IH[OF p1 p2 p3, unfolded b' e']
  have app: "split_scan ?sep (buffer self @ concat (chunk # chunks)) =
               butlast ?S @ split_scan ?sep (last ?S @ concat chunks)"
    using split_scan_append[OF ne, of "buffer self @ chunk" "concat chunks"] by simp
  have 1: "delimited_records self (chunk # chunks) =
             butlast ?S @ delimited_records ?self' chunks"
    using fr pd by simp
  have 2: "fst (onData_all parse self (chunk # chunks)) = fst (onData_all parse ?self' chunks)"
    by (simp add: onData_fst case_prod_unfold Let_def)
  have 3: "tail_elements self (chunk # chunks) =
             (if ends_on_EOL self (buffer self @ chunk) then [last ?S] else []) @
             tail_elements ?self' chunks"
    using fr pd by simp
  have 4: "ends_on_EOL self (buffer self @ chunk) \<Longrightarrow> last ?S = []"
    using Cons.prems(1) by (simp add: ends_on_EOL_suffix split_scan_last_suffix)
  show ?case
    unfolding 1 2 3 app using IH 4 by (auto simp: butlast_append)
qed

text \<open>The definitions that an example unfolds to be computed.\<close>

lemmas eval_defs =
  onData_def frame_def construct_def pending_data_def split_js_def ends_on_EOL_def
  for_loop_step for_loop_done emit_error_def on_error_def loop_body_def default_recordRegExp_def is_space_def has_non_space_def
  perf_calls_def parse_sample_def stringify_sample_def crlf_def accept_all_def setPerf_def
  write_json_def stream_error_def no_self_overlap_def Let_def

section \<open>The claims\<close>

subsection \<open>C1: invariance under chunking\<close>

text \<open>
  C1 as stated fails. With the delimiter \<^verbatim>\<open>"\n"\<close>, the chunks \<^verbatim>\<open>"a\n"\<close>, \<^verbatim>\<open>"b\n"\<close> and the
  single chunk \<^verbatim>\<open>"a\nb\n"\<close> hand different sequences to the loop: every chunk that ends on the
  delimiter adds the empty last element of its split. With the delimiter \<^verbatim>\<open>"--"\<close>, the chunks
  \<^verbatim>\<open>"a---"\<close>, \<^verbatim>\<open>"b--"\<close> give the records \<^verbatim>\<open>a\<close>, \<^verbatim>\<open>-\<close>, \<^verbatim>\<open>b\<close>, while their concatenation splits
  into \<^verbatim>\<open>a\<close> and \<^verbatim>\<open>-b\<close>: the first chunk ends on the delimiter, yet its split ends with the
  piece \<^verbatim>\<open>-\<close>. No chunk is near the limit.
\<close>

theorem C1_counterexample:
  "within_limit (construct ''\<newline>'' 1 None) [''a\<newline>'', ''b\<newline>'']
   \<and> candidate_records (construct ''\<newline>'' 1 None) [''a\<newline>'', ''b\<newline>''] = [''a'', [], ''b'', []]
   \<and> candidate_records (construct ''\<newline>'' 1 None) [''a\<newline>b\<newline>''] = [''a'', ''b'', []]
   \<and> within_limit (construct ''--'' 1 None) [''a---'', ''b--'']
   \<and> candidate_records (construct ''--'' 1 None) [''a---'', ''b--''] = [''a'', ''-'', ''b'', []]
   \<and> candidate_records (construct ''--'' 1 None) [''a---b--''] = [''a'', ''-b'', []]
   \<and> split_js (concat [''a---'', ''b--'']) ''--'' = [''a'', ''-b'', []]"
  by (simp add: eval_defs)

text \<open>
  C1, amended. Let the delimiter be one that cannot overlap itself, the buffer empty at the
  start, and no chunk, with the buffer in front of it, longer than \<open>maxLineLength\<close>. Then the
  records handed to the loop over all chunks, leaving out for each chunk that ends on the
  delimiter the last element of its split, are the pieces of the concatenation of the chunks
  but the last, in order; the buffer at the end is that last piece; and every element left
  out is empty. Where the boundaries of the chunks fall does not matter.
\<close>

theorem C1_chunking_invariance:
  assumes "no_self_overlap (EOL self)"
    and "buffer self = []"
    and "within_limit self chunks"
  shows "delimited_records self chunks = butlast (split_js (concat chunks) (EOL self))
       \<and> buffer (fst (onData_all parse self chunks)) = last (split_js (concat chunks) (EOL self))
       \<and> (\<forall>t \<in> set (tail_elements self chunks). t = [])"
proof -
  from assms(1) have ne: "EOL self \<noteq> []" by (simp add: no_self_overlap_def)
  from assms(2) have "split_scan (EOL self) (buffer self) = [buffer self]" by simp
  from chunking_aux[OF assms(1) assms(3) this, of parse] assms(2) ne show ?thesis
    by (auto simp: split_js_def)
qed

text \<open>
  C1, an instance: the delimiter \<^verbatim>\<open>"\r\n"\<close> falls across the boundary of the two chunks
  \<^verbatim>\<open>"a\r"\<close> and \<^verbatim>\<open>"\nb\r\nc"\<close>.
\<close>

theorem C1_chunking_invariance_witness:
  "no_self_overlap (EOL (construct crlf 1 None))
   \<and> buffer (construct crlf 1 None) = []
   \<and> within_limit (construct crlf 1 None) [''a'' @ [CHR 0x0D], [CHR 0x0A] @ ''b'' @ crlf @ ''c'']
   \<and> delimited_records (construct crlf 1 None)
        [''a'' @ [CHR 0x0D], [CHR 0x0A] @ ''b'' @ crlf @ ''c''] = [''a'', ''b'']
   \<and> buffer (fst (onData_all parse_sample (construct crlf 1 None)
         [''a'' @ [CHR 0x0D], [CHR 0x0A] @ ''b'' @ crlf @ ''c''])) = ''c''"
proof -
  let ?s = "construct crlf 1 None"
  let ?chunks = "[''a'' @ [CHR 0x0D], [CHR 0x0A] @ ''b'' @ crlf @ ''c'']"
  have h1: "no_self_overlap (EOL ?s)" by (simp add: eval_defs)
  have h2: "buffer ?s = []" by (simp add: eval_defs)
  have h3: "within_limit ?s ?chunks" by (simp add: eval_defs)
  from C1_chunking_invariance[OF h1 h2 h3, of parse_sample] h1 h2 h3 show ?thesis
    by (simp add: eval_defs)
qed

subsection \<open>C2: the bound on the buffer\<close>

text \<open>
  C2 as stated fails. The cut of line 141 is inside \<^verbatim>\<open>if (self.buffer)\<close>: with an empty
  buffer and \<open>maxLineLength = 2\<close>, the chunk \<^verbatim>\<open>"abc"\<close> is not cut, and it is the buffer
  afterwards, three code units long.
\<close>

theorem C2_counterexample:
  "buffer ((construct ''\<newline>'' 1 None)\<lparr>maxLineLength := 2\<rparr>) = []
   \<and> maxLineLength ((construct ''\<newline>'' 1 None)\<lparr>maxLineLength := 2\<rparr>) = 2
   \<and> pending_data ((construct ''\<newline>'' 1 None)\<lparr>maxLineLength := 2\<rparr>) ''abc'' = ''abc''
   \<and> buffer (fst (onData parse_sample ((construct ''\<newline>'' 1 None)\<lparr>maxLineLength := 2\<rparr>) ''abc''))
       = ''abc''"
  by (simp add: eval_defs)

text \<open>
  C2, amended. When the buffer is not empty and, with the chunk behind it, is longer than
  \<open>maxLineLength\<close>, the data that is split is its last \<open>maxLineLength\<close> code units, a suffix of
  it. After a chunk that came to a non-empty buffer, the buffer is at most \<open>maxLineLength\<close>
  long. A chunk that comes to an empty buffer is not cut, and the buffer after it is at most as
  long as the chunk.
\<close>

theorem C2_bounded_buffer:
  "(buffer self \<noteq> [] \<and> length (buffer self @ chunk) > maxLineLength self \<longrightarrow>
      pending_data self chunk =
        drop (length (buffer self @ chunk) - maxLineLength self) (buffer self @ chunk)
      \<and> length (pending_data self chunk) = maxLineLength self
      \<and> suffix (pending_data self chunk) (buffer self @ chunk))
   \<and> (buffer self \<noteq> [] \<longrightarrow>
        length (buffer (fst (onData parse self chunk))) \<le> maxLineLength self)
   \<and> (buffer self = [] \<longrightarrow>
        pending_data self chunk = chunk
        \<and> length (buffer (fst (onData parse self chunk))) \<le> length chunk)"
proof -
  have a: "buffer self \<noteq> [] \<Longrightarrow> length (buffer self @ chunk) > maxLineLength self \<Longrightarrow>
      pending_data self chunk =
        drop (length (buffer self @ chunk) - maxLineLength self) (buffer self @ chunk)"
    by (simp add: pending_data_def)
  have b: "buffer self \<noteq> [] \<Longrightarrow> length (pending_data self chunk) \<le> maxLineLength self"
    by (simp add: pending_data_def Let_def del: drop_append)
  have c: "buffer self = [] \<Longrightarrow> pending_data self chunk = chunk"
    by (simp add: pending_data_def)
  have d: "length (buffer (fst (onData parse self chunk))) \<le> length (pending_data self chunk)"
    unfolding onData_fst by (rule frame_buffer_length)
  have e: "buffer self \<noteq> [] \<Longrightarrow> length (buffer self @ chunk) > maxLineLength self \<Longrightarrow>
      length (pending_data self chunk) = maxLineLength self"
    by (simp add: pending_data_def del: drop_append)
  have f: "buffer self \<noteq> [] \<Longrightarrow> length (buffer self @ chunk) > maxLineLength self \<Longrightarrow>
      suffix (pending_data self chunk) (buffer self @ chunk)"
    unfolding a by (rule suffix_drop)
  from b d have g: "buffer self \<noteq> [] \<Longrightarrow>
      length (buffer (fst (onData parse self chunk))) \<le> maxLineLength self"
    by (rule order_trans[rotated])
  from c d have h: "buffer self = [] \<Longrightarrow>
      length (buffer (fst (onData parse self chunk))) \<le> length chunk"
    by simp
  from a e f g h c show ?thesis by blast
qed

text \<open>
  C2, an instance: the buffer \<^verbatim>\<open>"abc"\<close>, the chunk \<^verbatim>\<open>"defg"\<close> and \<open>maxLineLength = 4\<close>.
\<close>

theorem C2_bounded_buffer_witness:
  "buffer ((construct ''\<newline>'' 1 None)\<lparr>maxLineLength := 4, buffer := ''abc''\<rparr>) \<noteq> []
   \<and> length (buffer ((construct ''\<newline>'' 1 None)\<lparr>maxLineLength := 4, buffer := ''abc''\<rparr>) @ ''defg'')
        > maxLineLength ((construct ''\<newline>'' 1 None)\<lparr>maxLineLength := 4, buffer := ''abc''\<rparr>)
   \<and> pending_data ((construct ''\<newline>'' 1 None)\<lparr>maxLineLength := 4, buffer := ''abc''\<rparr>) ''defg''
        = ''defg''
   \<and> length (buffer (fst (onData parse_sample
         ((construct ''\<newline>'' 1 None)\<lparr>maxLineLength := 4, buffer := ''abc''\<rparr>) ''defg''))) \<le> 4"
  using C2_bounded_buffer[of "(construct ''\<newline>'' 1 None)\<lparr>maxLineLength := 4, buffer := ''abc''\<rparr>"
      "''defg''" parse_sample]
  by (simp add: construct_def)

subsection \<open>C3: a record that fails to decode\<close>

text \<open>
  C3 as stated fails. The object as the constructor leaves it has no listener of \<^verbatim>\<open>error\<close>. On
  the chunk \<^verbatim>\<open>{bad\n{"a":1}\n\<close> the handler emits the \<^verbatim>\<open>error\<close> event for \<^verbatim>\<open>{bad\<close>, the call
  of \<^verbatim>\<open>emit\<close> in line 164 throws, and the loop is left: the record \<^verbatim>\<open>{"a":1}\<close> behind it, which
  matches the pattern and would decode, is never reached.
\<close>

theorem C3_counterexample:
  "\<not> error_listener (construct ''\<newline>'' 1 None)
   \<and> snd (frame (construct ''\<newline>'' 1 None) ''{bad\<newline>{\"a\":1}\<newline>'') =
       [''{bad'', ''{\"a\":1}'', []]
   \<and> parse_sample ''{\"a\":1}'' = Inr (JObject [(''a'', JNumber 1)])
   \<and> snd (onData parse_sample (construct ''\<newline>'' 1 None) ''{bad\<newline>{\"a\":1}\<newline>'') =
       [Emit (EvError (ErrObject (JsError ''Error'' ''JSON Parse Error: Unexpected token''))
                      (Some ''{bad'')),
        Unhandled (ErrObject (JsError ''Error'' ''JSON Parse Error: Unexpected token''))]"
  by (simp add: eval_defs)

text \<open>
  C3, amended. Let a listener of \<^verbatim>\<open>error\<close> be attached to the object. Let a chunk give the array
  \<open>records\<close>, and let \<open>records ! i\<close> match the record pattern and \<^verbatim>\<open>JSON.parse\<close> throw \<open>e\<close> on it.
  Then the handler emits, for the records before it, what their own turns of the loop emit;
  for this record one \<^verbatim>\<open>error\<close> event, with an Error whose message is \<^verbatim>\<open>JSON Parse Error: \<close>
  and the message of \<open>e\<close>, and with the record itself, and no \<^verbatim>\<open>json\<close> event; and for the records
  after it what their own turns emit, in order. The object after the chunk is the one the
  framing left: the failure does not touch what later chunks meet.
\<close>

theorem C3_decode_failure_isolated:
  assumes "error_listener self"
    and "frame self chunk = (self', records)"
    and "i < length records"
    and "recordRegExp self (records ! i)"
    and "parse (records ! i) = Inl e"
  shows "notifications (snd (onData parse self chunk)) =
           notifications (concat (map (\<lambda>j. loop_body parse self j (length records) (records ! j))
                                      [0..<i])) @
           [EvError (ErrObject (JsError ''Error'' (''JSON Parse Error: '' @ message e)))
                    (Some (records ! i))] @
           notifications (concat (map (\<lambda>j. loop_body parse self j (length records) (records ! j))
                                      [Suc i..<length records]))
         \<and> fst (onData parse self chunk) = fst (frame self chunk)"
proof -
  have "notifications (loop_body parse self i (length records) (records ! i)) =
          [EvError (ErrObject (JsError ''Error'' (''JSON Parse Error: '' @ message e)))
                   (Some (records ! i))]"
    using assms(4,5) by (rule loop_body_parse_error)
  moreover have "for_loop parse self records 0 (length records) =
      concat (map (\<lambda>j. loop_body parse self j (length records) (records ! j))
                  [0..<length records])"
    using assms(1) by (intro for_loop_concat) (simp add: loop_body_aborted)
  ultimately show ?thesis
    by (simp add: onData_effects[OF assms(2)] upt_split_at[OF assms(3)] onData_fst)
qed

text \<open>
  C3, an instance: with a listener of \<^verbatim>\<open>error\<close> attached, the chunk \<^verbatim>\<open>{bad\n{"a":1}\n\<close> gives
  one \<^verbatim>\<open>error\<close> event for \<^verbatim>\<open>{bad\<close> and then the \<^verbatim>\<open>json\<close> event of the record behind it.
\<close>

theorem C3_decode_failure_isolated_witness:
  "error_listener (on_error (construct ''\<newline>'' 1 None))
   \<and> frame (on_error (construct ''\<newline>'' 1 None)) ''{bad\<newline>{\"a\":1}\<newline>'' =
     (on_error (construct ''\<newline>'' 1 None), [''{bad'', ''{\"a\":1}'', []])
   \<and> recordRegExp (on_error (construct ''\<newline>'' 1 None)) ''{bad''
   \<and> parse_sample ''{bad'' = Inl (JsError ''SyntaxError'' ''Unexpected token'')
   \<and> notifications (snd (onData parse_sample (on_error (construct ''\<newline>'' 1 None))
         ''{bad\<newline>{\"a\":1}\<newline>'')) =
       [EvError (ErrObject (JsError ''Error'' ''JSON Parse Error: Unexpected token''))
                (Some ''{bad''),
        EvJson (JObject [(''a'', JNumber 1)])]"
proof -
  let ?s = "on_error (construct ''\<newline>'' 1 None)"
  let ?records = "[''{bad'', ''{\"a\":1}'', []]"
  have h0: "error_listener ?s" by (simp add: eval_defs)
  have h1: "frame ?s ''{bad\<newline>{\"a\":1}\<newline>'' = (?s, ?records)" by (simp add: eval_defs)
  have h2: "0 < length ?records" by simp
  have h3: "recordRegExp ?s (?records ! 0)" by (simp add: eval_defs)
  have h4: "parse_sample (?records ! 0) = Inl (JsError ''SyntaxError'' ''Unexpected token'')"
    by (simp add: eval_defs)
  from C3_decode_failure_isolated[where parse = parse_sample and records = ?records and i = 0,
      OF h0 h1 h2 h3 h4] h0 h1 h3 h4 show ?thesis
    by (simp add: eval_defs upt_conv_Cons)
qed

subsection \<open>C4: writing and reading back\<close>

text \<open>
  C4 as stated fails. Under the defaults the array \<^verbatim>\<open>[1,2]\<close> is written as \<^verbatim>\<open>[1,2]\n\<close>, which
  the record pattern does not match: read back, it is a \<^verbatim>\<open>text\<close> event and no \<^verbatim>\<open>json\<close> event.
  With the delimiter \<^verbatim>\<open>","\<close> on both sides, the object \<^verbatim>\<open>{"a":1,"b":2}\<close> is written with the
  delimiter inside its text: read back by an object with a listener of \<^verbatim>\<open>error\<close>, it is an
  \<^verbatim>\<open>error\<close> event for \<^verbatim>\<open>{"a":1\<close> and a \<^verbatim>\<open>text\<close> event.
\<close>

theorem C4_counterexample:
  "stream_writes (snd (write_json stringify_sample accept_all (construct ''\<newline>'' 1 None)
       (JsonValue (JArray [JNumber 1, JNumber 2])) None)) = [(''[1,2]\<newline>'', None)]
   \<and> notifications (snd (onData parse_sample (construct ''\<newline>'' 1 None) ''[1,2]\<newline>'')) =
       [EvText ''[1,2]\<newline>'']
   \<and> stream_writes (snd (write_json stringify_sample accept_all (construct '','' 1 None)
       (JsonValue (JObject [(''a'', JNumber 1), (''b'', JNumber 2)])) None)) =
       [(''{\"a\":1,\"b\":2},'', None)]
   \<and> notifications (snd (onData parse_sample (on_error (construct '','' 1 None))
         ''{\"a\":1,\"b\":2},'')) =
       [EvError (ErrObject (JsError ''Error'' ''JSON Parse Error: Unexpected token''))
                (Some ''{\"a\":1''),
        EvText ''\"b\":2},'']"
  by (simp add: eval_defs)

text \<open>
  C4, amended. Let \<^verbatim>\<open>JSON.stringify\<close> give the text \<open>s\<close> for \<open>v\<close>, and \<^verbatim>\<open>JSON.parse\<close> give back \<open>v\<close>
  for \<open>s\<close>, a value that counts as true (every object and array does). Let the reader have the
  writer's delimiter, which is not empty and of which no occurrence starts inside \<open>s\<close>; let
  its record pattern match \<open>s\<close> and not the empty string (the default pattern matches the text
  of an object and not the empty string); let its buffer be empty. Then \<open>write\<close> writes \<open>s\<close>
  and the delimiter, and the reader, given that text as one chunk, emits the one event
  \<^verbatim>\<open>json\<close> with \<open>v\<close>, no \<^verbatim>\<open>text\<close> and no \<^verbatim>\<open>error\<close> event, and keeps an empty buffer.
\<close>

theorem C4_round_trip:
  assumes "stringify v = Serialized s"
    and "parse s = Inr v"
    and "truthy v"
    and "recordRegExp rd s"
    and "\<not> recordRegExp rd []"
    and "EOL rd = EOL wr"
    and "EOL wr \<noteq> []"
    and "\<forall>i<length s. \<not> prefix (EOL wr) (drop i (s @ EOL wr))"
    and "buffer rd = []"
  shows "stream_writes (snd (write_json stringify stream_write wr v cb)) = [(s @ EOL wr, cb)]
       \<and> notifications (snd (onData parse rd (s @ EOL wr))) = [EvJson v]
       \<and> buffer (fst (onData parse rd (s @ EOL wr))) = []"
proof -
  have w: "stream_writes (snd (write_json stringify stream_write wr v cb)) = [(s @ EOL wr, cb)]"
    using assms(1) by (simp add: write_json_def Let_def)
  have pd: "pending_data rd (s @ EOL wr) = s @ EOL wr"
    using assms(9) by (simp add: pending_data_def)
  have en: "ends_on_EOL rd (s @ EOL wr)"
    using assms(6) by (simp add: ends_on_EOL_def)
  have sp: "split_js (s @ EOL wr) (EOL rd) = [s, []]"
    using assms(6,7,8) by (simp add: split_js_def split_scan_terminated)
  have fr: "frame rd (s @ EOL wr) = (rd\<lparr>buffer := []\<rparr>, [s, []])"
    using pd en sp by (simp add: frame_def)
  have b0: "notifications (loop_body parse rd 0 (Suc (Suc 0)) s) = [EvJson v]"
    using assms(2,3,4) by (simp add: loop_body_parsed)
  have b1: "notifications (loop_body parse rd (Suc 0) (Suc (Suc 0)) []) = []"
    using assms(5) by (simp add: loop_body_def)
  have "\<forall>j. 0 \<le> j \<and> j < length [s, []] \<longrightarrow>
          \<not> aborted (loop_body parse rd j (length [s, []]) ([s, []] ! j))"
    using assms(2,5) by (auto simp: loop_body_aborted less_Suc_eq)
  then have "for_loop parse rd [s, []] 0 (length [s, []]) =
      concat (map (\<lambda>j. loop_body parse rd j (length [s, []]) ([s, []] ! j)) [0..<length [s, []]])"
    by (rule for_loop_concat)
  then have "notifications (snd (onData parse rd (s @ EOL wr))) = [EvJson v]"
    using b0 b1 by (simp add: onData_effects[OF fr] upt_conv_Cons)
  moreover have "buffer (fst (onData parse rd (s @ EOL wr))) = []"
    using fr by (simp add: onData_fst)
  ultimately show ?thesis using w by simp
qed

text \<open>
  C4, an instance: \<^verbatim>\<open>{code:0}\<close> written with the delimiter \<^verbatim>\<open>"\n"\<close> and read by a second
  object with the defaults.
\<close>

theorem C4_round_trip_witness:
  "stringify_sample (JsonValue (JObject [(''code'', JNumber 0)])) = Serialized ''{\"code\":0}''
   \<and> parse_sample ''{\"code\":0}'' = Inr (JObject [(''code'', JNumber 0)])
   \<and> stream_writes (snd (write_json (\<lambda>j. stringify_sample (JsonValue j)) accept_all
         (construct ''\<newline>'' 1 None) (JObject [(''code'', JNumber 0)]) None)) =
       [(''{\"code\":0}\<newline>'', None)]
   \<and> notifications (snd (onData parse_sample (construct ''\<newline>'' 2 None) ''{\"code\":0}\<newline>'')) =
       [EvJson (JObject [(''code'', JNumber 0)])]"
proof -
  let ?wr = "construct ''\<newline>'' 1 None"
  let ?rd = "construct ''\<newline>'' 2 None"
  let ?v = "JObject [(''code'', JNumber 0)]"
  let ?s = "''{\"code\":0}''"
  have h1: "(\<lambda>j. stringify_sample (JsonValue j)) ?v = Serialized ?s" by (simp add: eval_defs)
  have h2: "parse_sample ?s = Inr ?v" by (simp add: eval_defs)
  have h3: "truthy ?v" by simp
  have h4: "recordRegExp ?rd ?s" by (simp add: eval_defs)
  have h5: "\<not> recordRegExp ?rd []" by (simp add: eval_defs)
  have h6: "EOL ?rd = EOL ?wr" by (simp add: eval_defs)
  have h7: "EOL ?wr \<noteq> []" by (simp add: eval_defs)
  have h8: "\<forall>i<length ?s. \<not> prefix (EOL ?wr) (drop i (?s @ EOL ?wr))"
    by (simp add: eval_defs All_less_Suc)
  have h9: "buffer ?rd = []" by (simp add: eval_defs)
  from C4_round_trip[where stringify = "\<lambda>j. stringify_sample (JsonValue j)"
      and parse = parse_sample and v = ?v and s = ?s and stream_write = accept_all and cb = None,
      OF h1 h2 h3 h4 h5 h6 h7 h8 h9] h1 h2
  show ?thesis by (simp add: construct_def)
qed

subsection \<open>C5: a record that decodes\<close>

text \<open>
  C5 as stated fails. With the record pattern \<^verbatim>\<open>/\S/\<close>, the record \<^verbatim>\<open>null\<close> matches and
  \<^verbatim>\<open>JSON.parse\<close> succeeds on it, but \<^verbatim>\<open>if (json)\<close> is false for \<^verbatim>\<open>null\<close>: nothing is emitted.
  And under the defaults, with no listener of \<^verbatim>\<open>error\<close>, the record \<^verbatim>\<open>{"a":1}\<close> of the chunk
  \<^verbatim>\<open>{bad\n{"a":1}\n\<close> matches and would decode, but the loop is left at \<^verbatim>\<open>{bad\<close> before it: no
  \<^verbatim>\<open>json\<close> event.
\<close>

theorem C5_counterexample:
  "snd (frame ((construct ''\<newline>'' 1 None)\<lparr>recordRegExp := has_non_space\<rparr>) ''null\<newline>'')
     = [''null'', []]
   \<and> recordRegExp ((construct ''\<newline>'' 1 None)\<lparr>recordRegExp := has_non_space\<rparr>) ''null''
   \<and> parse_sample ''null'' = Inr JNull
   \<and> notifications (snd (onData parse_sample
         ((construct ''\<newline>'' 1 None)\<lparr>recordRegExp := has_non_space\<rparr>) ''null\<newline>'')) = []
   \<and> snd (frame (construct ''\<newline>'' 1 None) ''{bad\<newline>{\"a\":1}\<newline>'') =
       [''{bad'', ''{\"a\":1}'', []]
   \<and> recordRegExp (construct ''\<newline>'' 1 None) ''{\"a\":1}''
   \<and> parse_sample ''{\"a\":1}'' = Inr (JObject [(''a'', JNumber 1)])
   \<and> notifications (snd (onData parse_sample (construct ''\<newline>'' 1 None)
         ''{bad\<newline>{\"a\":1}\<newline>'')) =
       [EvError (ErrObject (JsError ''Error'' ''JSON Parse Error: Unexpected token''))
                (Some ''{bad'')]"
  by (simp add: eval_defs)

text \<open>
  C5, amended. Let a chunk give the array \<open>records\<close>, and let \<open>records ! i\<close> match the record
  pattern and \<^verbatim>\<open>JSON.parse\<close> give for it a value \<open>v\<close> that counts as true (every object and
  array does; with the default pattern a record that decodes is an object). Let the loop reach
  the record: no turn before it ends by throwing (none does when a listener of \<^verbatim>\<open>error\<close> is
  attached, or when no record before it fails to decode). Then the handler emits, between what
  the turns for the records before it emit and what the rest of the loop emits, the one event
  \<^verbatim>\<open>json\<close> with \<open>v\<close>.
\<close>

theorem C5_decode_success_emitted:
  assumes "frame self chunk = (self', records)"
    and "i < length records"
    and "recordRegExp self (records ! i)"
    and "parse (records ! i) = Inr v"
    and "truthy v"
    and "\<forall>j<i. \<not> aborted (loop_body parse self j (length records) (records ! j))"
  shows "notifications (snd (onData parse self chunk)) =
           notifications (concat (map (\<lambda>j. loop_body parse self j (length records) (records ! j))
                                      [0..<i])) @
           [EvJson v] @
           notifications (for_loop parse self records (Suc i) (length records))"
proof -
  have own: "notifications (loop_body parse self i (length records) (records ! i)) = [EvJson v]"
    using assms(3,4,5) by (simp add: loop_body_parsed)
  have na: "\<not> aborted (loop_body parse self i (length records) (records ! i))"
    using assms(4) by (simp add: loop_body_aborted)
  have "for_loop parse self records 0 (length records) =
          concat (map (\<lambda>j. loop_body parse self j (length records) (records ! j)) [0..<i]) @
          for_loop parse self records i (length records)"
    using assms(2,6) by (intro for_loop_reach) simp_all
  moreover have "for_loop parse self records i (length records) =
          loop_body parse self i (length records) (records ! i) @
          for_loop parse self records (Suc i) (length records)"
    using assms(2) na by (simp add: for_loop_step)
  ultimately show ?thesis
    using own by (simp add: onData_effects[OF assms(1)])
qed

text \<open>
  C5, an instance: with a listener of \<^verbatim>\<open>error\<close> attached, the record \<^verbatim>\<open>{"a":1}\<close> behind the
  malformed \<^verbatim>\<open>{bad\<close> in the chunk \<^verbatim>\<open>{bad\n{"a":1}\n\<close>.
\<close>

theorem C5_decode_success_emitted_witness:
  "frame (on_error (construct ''\<newline>'' 1 None)) ''{bad\<newline>{\"a\":1}\<newline>'' =
     (on_error (construct ''\<newline>'' 1 None), [''{bad'', ''{\"a\":1}'', []])
   \<and> recordRegExp (on_error (construct ''\<newline>'' 1 None)) ''{\"a\":1}''
   \<and> parse_sample ''{\"a\":1}'' = Inr (JObject [(''a'', JNumber 1)])
   \<and> truthy (JObject [(''a'', JNumber 1)])
   \<and> \<not> aborted (loop_body parse_sample (on_error (construct ''\<newline>'' 1 None)) 0 3 ''{bad'')
   \<and> notifications (snd (onData parse_sample (on_error (construct ''\<newline>'' 1 None))
         ''{bad\<newline>{\"a\":1}\<newline>'')) =
       [EvError (ErrObject (JsError ''Error'' ''JSON Parse Error: Unexpected token''))
                (Some ''{bad''),
        EvJson (JObject [(''a'', JNumber 1)])]"
proof -
  let ?s = "on_error (construct ''\<newline>'' 1 None)"
  let ?records = "[''{bad'', ''{\"a\":1}'', []]"
  have h1: "frame ?s ''{bad\<newline>{\"a\":1}\<newline>'' = (?s, ?records)" by (simp add: eval_defs)
  have h2: "1 < length ?records" by simp
  have h3: "recordRegExp ?s (?records ! 1)" by (simp add: eval_defs)
  have h4: "parse_sample (?records ! 1) = Inr (JObject [(''a'', JNumber 1)])"
    by (simp add: eval_defs)
  have h5: "truthy (JObject [(''a'', JNumber 1)])" by simp
  have h6: "\<forall>j<1. \<not> aborted (loop_body parse_sample ?s j (length ?records) (?records ! j))"
    by (simp add: loop_body_aborted on_error_def)
  have h7: "\<not> aborted (loop_body parse_sample ?s 0 3 ''{bad'')"
    by (simp add: loop_body_aborted on_error_def)
  from C5_decode_success_emitted[where parse = parse_sample and records = ?records and i = 1,
      OF h1 h2 h3 h4 h5 h6] h1 h3 h4 h7 show ?thesis
    by (simp add: eval_defs)
qed

subsection \<open>C6: records of white space\<close>

text \<open>
  C6 at the inputs where the code departs from it, with \<open>preserveWhitespace\<close> set. The chunk
  \<^verbatim>\<open>\nabc\<close> holds one complete, empty record. Line 150 has taken the partial \<^verbatim>\<open>abc\<close> off
  \<open>records\<close> before line 156 reads \<open>len\<close>, so the record is the last element, line 179 puts no
  delimiter behind it, the text is empty and line 180 emits nothing. The same empty record in
  a chunk that ends on the delimiter, \<^verbatim>\<open>\n\<close>, is emitted with its delimiter. In the same way
  the record of two spaces in the chunk \<^verbatim>\<open>  \nabc\<close> is emitted without the delimiter, and in
  the chunk \<^verbatim>\<open>  \n\<close> with it.
\<close>

theorem C6_failing_input:
  "snd (frame ((construct ''\<newline>'' 1 None)\<lparr>preserveWhitespace := True\<rparr>) ''\<newline>abc'') = [[]]
   \<and> notifications (snd (onData parse_sample
         ((construct ''\<newline>'' 1 None)\<lparr>preserveWhitespace := True\<rparr>) ''\<newline>abc'')) = []
   \<and> notifications (snd (onData parse_sample
         ((construct ''\<newline>'' 1 None)\<lparr>preserveWhitespace := True\<rparr>) ''\<newline>'')) =
       [EvText ''\<newline>'']
   \<and> snd (frame ((construct ''\<newline>'' 1 None)\<lparr>preserveWhitespace := True\<rparr>) ''  \<newline>abc'')
       = [''  '']
   \<and> notifications (snd (onData parse_sample
         ((construct ''\<newline>'' 1 None)\<lparr>preserveWhitespace := True\<rparr>) ''  \<newline>abc'')) =
       [EvText ''  '']
   \<and> notifications (snd (onData parse_sample
         ((construct ''\<newline>'' 1 None)\<lparr>preserveWhitespace := True\<rparr>) ''  \<newline>'')) =
       [EvText ''  \<newline>'']"
  by (simp add: eval_defs)

subsection \<open>C7: what \<open>write\<close> writes and returns\<close>

text \<open>
  C7. When \<^verbatim>\<open>JSON.stringify\<close> gives the text \<open>s\<close> for \<open>v\<close>, \<open>write\<close> makes one write to the output
  stream, of \<open>s\<close> and the delimiter behind it, hands the callback to that write, and returns what
  the write of the stream returned.
\<close>

theorem C7_write_output:
  assumes "stringify v = Serialized s"
  shows "fst (write_json stringify stream_write self v cb) = Inr (stream_write (s @ EOL self) cb)
       \<and> stream_writes (snd (write_json stringify stream_write self v cb)) = [(s @ EOL self, cb)]"
  using assms by (simp add: write_json_def Let_def)

text \<open>
  C7, an instance: \<^verbatim>\<open>{code:0}\<close> with the delimiter \<^verbatim>\<open>"\n"\<close> is written as \<^verbatim>\<open>{"code":0}\n\<close>,
  with a tracker attached.
\<close>

theorem C7_write_output_witness:
  "stringify_sample (JsonValue (JObject [(''code'', JNumber 0)])) = Serialized ''{\"code\":0}''
   \<and> fst (write_json stringify_sample accept_all (setPerf (construct ''\<newline>'' 1 (Some 2)))
         (JsonValue (JObject [(''code'', JNumber 0)])) (Some 7)) = Inr True
   \<and> stream_writes (snd (write_json stringify_sample accept_all
         (setPerf (construct ''\<newline>'' 1 (Some 2)))
         (JsonValue (JObject [(''code'', JNumber 0)])) (Some 7))) =
       [(''{\"code\":0}\<newline>'', Some 7)]"
proof -
  have h: "stringify_sample (JsonValue (JObject [(''code'', JNumber 0)])) =
             Serialized ''{\"code\":0}''"
    by (simp add: stringify_sample_def)
  from C7_write_output[where stringify = stringify_sample and stream_write = accept_all
      and self = "setPerf (construct ''\<newline>'' 1 (Some 2))" and cb = "Some 7", OF h] h
  show ?thesis by (simp add: construct_def setPerf_def accept_all_def)
qed

subsection \<open>C8: a value that cannot be serialized\<close>

text \<open>
  C8. When \<^verbatim>\<open>JSON.stringify\<close> throws \<open>e\<close>, \<open>write\<close> throws \<open>e\<close> to its caller, emits no event and
  writes nothing to the output stream.
\<close>

theorem C8_serialize_error:
  assumes "stringify v = Raised e"
  shows "fst (write_json stringify stream_write self v cb) = Inl e
       \<and> notifications (snd (write_json stringify stream_write self v cb)) = []
       \<and> stream_writes (snd (write_json stringify stream_write self v cb)) = []"
  using assms by (simp add: write_json_def)

text \<open>C8, an instance: an object that refers to itself, with a tracker attached.\<close>

theorem C8_serialize_error_witness:
  "stringify_sample CyclicObject =
     Raised (JsError ''TypeError'' ''Converting circular structure to JSON'')
   \<and> fst (write_json stringify_sample accept_all (setPerf (construct ''\<newline>'' 1 (Some 2)))
         CyclicObject None) =
       Inl (JsError ''TypeError'' ''Converting circular structure to JSON'')
   \<and> notifications (snd (write_json stringify_sample accept_all
         (setPerf (construct ''\<newline>'' 1 (Some 2))) CyclicObject None)) = []
   \<and> stream_writes (snd (write_json stringify_sample accept_all
         (setPerf (construct ''\<newline>'' 1 (Some 2))) CyclicObject None)) = []"
proof -
  have h: "stringify_sample CyclicObject =
             Raised (JsError ''TypeError'' ''Converting circular structure to JSON'')"
    by (simp add: stringify_sample_def)
  from C8_serialize_error[where stringify = stringify_sample and stream_write = accept_all
      and self = "setPerf (construct ''\<newline>'' 1 (Some 2))" and cb = None, OF h] h
  show ?thesis by simp
qed

subsection \<open>C9: an error of the input stream\<close>




subsection \<open>C10: no empty \<open>text\<close> event\<close>

text \<open>
  C10. Every \<^verbatim>\<open>text\<close> event that the handler emits for a chunk carries a text that is not
  empty. And when the last element of \<open>records\<close> is empty, as it is when the chunk ends on the
  delimiter, its turn of the loop emits no \<^verbatim>\<open>text\<close> event, whatever \<open>preserveWhitespace\<close> is.
\<close>

theorem C10_text_nonempty:
  "(\<forall>t. EvText t \<in> set (notifications (snd (onData parse self chunk))) \<longrightarrow> t \<noteq> [])
   \<and> (\<forall>self' records. frame self chunk = (self', records) \<and> records \<noteq> [] \<and> last records = [] \<longrightarrow>
        text_events (notifications (loop_body parse self (length records - 1) (length records)
          (last records))) = [])"
proof -
  obtain self' records where fr: "frame self chunk = (self', records)"
    by (cases "frame self chunk")
  have "\<And>t. EvText t \<in> set (notifications (snd (onData parse self chunk))) \<Longrightarrow> t \<noteq> []"
    unfolding onData_effects[OF fr] by (rule for_loop_text_nonempty)
  moreover have "\<And>len. text_events (notifications (loop_body parse self (len - 1) len [])) = []"
    by (simp add: loop_body_def emit_error_def Let_def split: sum.splits)
  ultimately show ?thesis by auto
qed

text \<open>
  C10, an instance: the chunk \<^verbatim>\<open>\n\n\<close> with \<open>preserveWhitespace\<close> on gives three empty
  records; the first two are emitted as the delimiter, the third is not emitted.
\<close>

theorem C10_text_nonempty_witness:
  "frame ((construct ''\<newline>'' 1 None)\<lparr>preserveWhitespace := True\<rparr>) ''\<newline>\<newline>'' =
     ((construct ''\<newline>'' 1 None)\<lparr>preserveWhitespace := True\<rparr>, [[], [], []])
   \<and> EvText ''\<newline>'' \<in> set (notifications (snd (onData parse_sample
         ((construct ''\<newline>'' 1 None)\<lparr>preserveWhitespace := True\<rparr>) ''\<newline>\<newline>'')))
   \<and> ''\<newline>'' \<noteq> []
   \<and> text_events (notifications (loop_body parse_sample
         ((construct ''\<newline>'' 1 None)\<lparr>preserveWhitespace := True\<rparr>) 2 3 [])) = []"
proof -
  let ?s = "(construct ''\<newline>'' 1 None)\<lparr>preserveWhitespace := True\<rparr>"
  let ?records = "[[], [], []] :: string list"
  have h1: "frame ?s ''\<newline>\<newline>'' = (?s, ?records)" by (simp add: eval_defs)
  have h2: "EvText ''\<newline>'' \<in> set (notifications (snd (onData parse_sample ?s ''\<newline>\<newline>'')))"
    by (simp add: eval_defs upt_conv_Cons)
  note T = C10_text_nonempty[of parse_sample ?s "''\<newline>\<newline>''"]
  from T h2 have a: "''\<newline>'' \<noteq> []" by blast
  from T have "frame ?s ''\<newline>\<newline>'' = (?s, ?records) \<and> ?records \<noteq> [] \<and> last ?records = [] \<longrightarrow>
      text_events (notifications (loop_body parse_sample ?s (length ?records - 1)
        (length ?records) (last ?records))) = []"
    by blast
  with h1 have b: "text_events (notifications (loop_body parse_sample ?s 2 3 [])) = []"
    by (simp add: numeral_2_eq_2 numeral_3_eq_3)
  from h1 h2 a b show ?thesis by simp
qed

end
